theory Spec2Isabelle
  imports Main
begin

section \<open>Member retrieval helpers of \<open>src/helpers/guild.ts\<close>\<close>

text \<open>
  The development embeds three functions of \<open>src/helpers/guild.ts\<close>:
  \<open>fetchMembers\<close> (the gateway path, lines 547-563; \<open>unnamed/part_000\<close> holds a
  later revision with the same guard and the same override),
  \<open>getMembersByQuery\<close> (lines 302-313) and \<open>getMembers\<close> (the REST pagination,
  lines 573-633).

  JavaScript numbers that count members are modelled as \<open>int\<close>; an optional
  field, \<open>undefined\<close> and an absent \<open>options\<close> object are \<open>None\<close>; a thrown
  \<open>Error\<close> is the \<open>Inl\<close> branch of a sum.
\<close>

subsection \<open>Errors, truthiness and the intents test\<close>

datatype error = MISSING_INTENT_GUILD_MEMBERS | GUILD_NOT_FOUND

text \<open>
  Modelled from the spec: \<open>Intents.GUILD_MEMBERS\<close>, an enum member declared in
  \<open>types/mod.ts\<close>, which is not among the files embedded here. The spec calls it the
  privileged "guild members" capability bit; in the gateway protocol it is
  \<open>1 << 1\<close>.
\<close>

definition GUILD_MEMBERS :: int where
  "GUILD_MEMBERS = 2"

text \<open>JavaScript truthiness of a number, and of an optional number.\<close>

definition truthy :: "int \<Rightarrow> bool" where
  "truthy n = (n \<noteq> 0)"

definition truthy_opt :: "int option \<Rightarrow> bool" where
  "truthy_opt x = (case x of None \<Rightarrow> False | Some n \<Rightarrow> truthy n)"

text \<open>\<open>a && b\<close> on numbers: the left operand when it is falsy, else the right one.\<close>

definition js_and :: "int \<Rightarrow> int \<Rightarrow> int" where
  "js_and a b = (if truthy a then b else a)"

text \<open>\<open>x > 1\<close> for an optional number: \<open>undefined > 1\<close> is false.\<close>

definition gt_one :: "int option \<Rightarrow> bool" where
  "gt_one x = (case x of None \<Rightarrow> False | Some n \<Rightarrow> 1 < n)"

text \<open>
  The test both paths write: \<open>identifyPayload.intents && Intents.GUILD_MEMBERS\<close>,
  a logical conjunction of the two numbers.
\<close>

definition intents_test :: "int \<Rightarrow> bool" where
  "intents_test intents = truthy (js_and intents GUILD_MEMBERS)"

subsection \<open>The gateway path: \<open>fetchMembers\<close> and \<open>getMembersByQuery\<close>\<close>

record guild =
  g_id :: string
  memberCount :: int

record FetchMembersOptions =
  fm_presences :: "bool option"
  fm_query :: "string option"
  fm_userIDs :: "string list option"
  fm_limit :: "int option"

text \<open>\<open>options?.limit\<close>.\<close>

definition fm_limit_of :: "FetchMembersOptions option \<Rightarrow> int option" where
  "fm_limit_of options = (case options of None \<Rightarrow> None | Some opts \<Rightarrow> fm_limit opts)"

text \<open>
  \<open>requestAllMembers\<close> lives in \<open>ws/shard_manager.ts\<close>; a call of it is recorded
  by its arguments (the \<open>resolve\<close> callback apart).
\<close>

record member_request =
  rq_guild :: guild
  rq_options :: "FetchMembersOptions option"

text \<open>
  The statement \<open>if (options?.userIDs?.length) options.limit = options.userIDs.length\<close>.
\<close>

definition override_limit :: "FetchMembersOptions option \<Rightarrow> FetchMembersOptions option" where
  "override_limit options =
     (case options of
        None \<Rightarrow> None
      | Some opts \<Rightarrow>
          (case fm_userIDs opts of
             None \<Rightarrow> Some opts
           | Some ids \<Rightarrow>
               if truthy (int (length ids))
               then Some (opts\<lparr>fm_limit := Some (int (length ids))\<rparr>)
               else Some opts))"

definition fetchMembers ::
  "int \<Rightarrow> guild \<Rightarrow> FetchMembersOptions option \<Rightarrow> error + member_request" where
  "fetchMembers intents guild options =
     (if (\<not> truthy_opt (fm_limit_of options) \<or> gt_one (fm_limit_of options))
          \<and> \<not> intents_test intents
      then Inl MISSING_INTENT_GUILD_MEMBERS
      else Inr \<lparr>rq_guild = guild, rq_options = override_limit options\<rparr>)"

text \<open>
  \<open>getMembersByQuery(guildID, name, limit = 1)\<close>: the guild is read from the cache
  (a map from ids to guilds); \<open>undefined\<close> is \<open>Inr None\<close>.
\<close>

definition getMembersByQuery ::
  "(string \<rightharpoonup> guild) \<Rightarrow> string \<Rightarrow> string \<Rightarrow> int option \<Rightarrow> error + member_request option" where
  "getMembersByQuery guilds guildID name limit =
     (case guilds guildID of
        None \<Rightarrow> Inr None
      | Some guild \<Rightarrow>
          Inr (Some \<lparr>rq_guild = guild,
                     rq_options = Some \<lparr>fm_presences = None, fm_query = Some name,
                                         fm_userIDs = None,
                                         fm_limit = Some (case limit of None \<Rightarrow> 1 | Some l \<Rightarrow> l)\<rparr>\<rparr>))"

text \<open>
  The spec's vocabulary, for comparison with the code: the effective limit of a
  request (the length of a non-empty id list, else the caller's limit, else 0 for
  "entire guild"), and the presence of the capability bit in the granted intents.
\<close>

definition spec_effective_limit :: "FetchMembersOptions option \<Rightarrow> int" where
  "spec_effective_limit options =
     (case options of
        None \<Rightarrow> 0
      | Some opts \<Rightarrow>
          (case fm_userIDs opts of
             Some (u # us) \<Rightarrow> int (length (u # us))
           | _ \<Rightarrow> (case fm_limit opts of None \<Rightarrow> 0 | Some l \<Rightarrow> l)))"

definition spec_has_guild_members :: "int \<Rightarrow> bool" where
  "spec_has_guild_members intents = (and intents GUILD_MEMBERS \<noteq> 0)"

subsection \<open>The REST path: \<open>getMembers\<close>\<close>

record GetMemberOptions =
  gm_limit :: "int option"
  gm_after :: "string option"

text \<open>\<open>options?.limit\<close> and \<open>options?.after\<close>.\<close>

definition gm_limit_of :: "GetMemberOptions option \<Rightarrow> int option" where
  "gm_limit_of options = (case options of None \<Rightarrow> None | Some opts \<Rightarrow> gm_limit opts)"

definition gm_after_of :: "GetMemberOptions option \<Rightarrow> string option" where
  "gm_after_of options = (case options of None \<Rightarrow> None | Some opts \<Rightarrow> gm_after opts)"

text \<open>
  A member structure: its id, the guild it was built for, and \<open>m_nick\<close> standing
  for the remaining fields. \<open>structures.createMemberStruct\<close> is a collaborator
  (a parameter \<open>mk\<close> below), applied to each payload of a page.
\<close>

record member =
  m_id :: string
  m_guildID :: string
  m_nick :: string

text \<open>
  One page request: the URL
  \<open>${endpoints.GUILD_MEMBERS(guildID)}?limit=${...}${options?.after ? `&after=${options.after}` : ""}\<close>,
  by its three parts. An empty string is falsy, so it sends no \<open>after\<close>.
\<close>

record request =
  r_guildID :: string
  r_limit :: int
  r_after :: "string option"

text \<open>
  What one call does to the outside, in order: a \<open>RequestManager.get\<close> with the page
  it returned, a \<open>cacheHandlers.set("members", id, struct)\<close>, and a
  \<open>members.set(id, struct)\<close> on the collection that is returned.
\<close>

datatype 'p event = RestGet request "'p list" | CacheSet member | MembersSet member

text \<open>
  Modelled from the spec: \<open>Collection\<close> (\<open>util/collection.ts\<close>, not among the
  files embedded here), the "ordered-by-insertion mapping of member id to member
  entity" into which the pages are "merged ..., first-write-wins per id,
  preserving page arrival order". So \<open>set\<close> on an id that is already present
  leaves the collection as it is, \<open>set\<close> on a new id appends the entry, and
  \<open>size\<close> is the number of entries. \<open>getMembers\<close> calls \<open>members.set\<close> for every
  member of a page without testing for the id (line 620), so what becomes of a
  second entry for an id is decided by this definition alone.
\<close>

type_synonym Collection = "(string \<times> member) list"

definition Collection_set :: "Collection \<Rightarrow> string \<Rightarrow> member \<Rightarrow> Collection" where
  "Collection_set c k v = (case map_of c k of Some present \<Rightarrow> c | None \<Rightarrow> c @ [(k, v)])"

definition Collection_size :: "Collection \<Rightarrow> int" where
  "Collection_size c = int (length c)"

text \<open>The variables of the loop, the members cache and the events so far.\<close>

record 'p loop_state =
  members :: Collection
  membersLeft :: int
  loops :: nat
  options :: "GetMemberOptions option"
  cache :: "string \<rightharpoonup> member"
  events :: "'p event list"

text \<open>\<open>options?.limit ?? guild.memberCount\<close>.\<close>

definition wanted :: "guild \<Rightarrow> GetMemberOptions option \<Rightarrow> int" where
  "wanted guild opts = (case gm_limit_of opts of None \<Rightarrow> memberCount guild | Some l \<Rightarrow> l)"

text \<open>The condition of the \<open>while\<close>.\<close>

definition loop_cond :: "guild \<Rightarrow> 'p loop_state \<Rightarrow> bool" where
  "loop_cond guild s =
     (wanted guild (options s) > Collection_size (members s) \<and> membersLeft s > 0)"

text \<open>
  \<open>options?.after ? `&after=${options.after}` : ""\<close>: the cursor a request carries.
\<close>

definition after_param :: "string option \<Rightarrow> string option" where
  "after_param a = (case a of None \<Rightarrow> None | Some x \<Rightarrow> if x \<noteq> [] then Some x else None)"

definition page_request :: "string \<Rightarrow> 'p loop_state \<Rightarrow> request" where
  "page_request guildID s =
     \<lparr>r_guildID = guildID,
      r_limit = (if membersLeft s > 1000 then 1000 else membersLeft s),
      r_after = after_param (gm_after_of (options s))\<rparr>"

text \<open>
  \<open>result.map(async (member) => ...)\<close> under \<open>Promise.all\<close>: every payload becomes a
  structure and is written to the cache, in the order of the page.
\<close>

definition cache_page ::
  "request \<Rightarrow> 'p list \<Rightarrow> member list \<Rightarrow> 'p loop_state \<Rightarrow> 'p loop_state" where
  "cache_page req result memberStructures s =
     s\<lparr>cache := foldl (\<lambda>c m. c(m_id m \<mapsto> m)) (cache s) memberStructures,
       events := events s @ RestGet req result # map CacheSet memberStructures\<rparr>"

text \<open>
  The rest of the body once the page is known not to be empty: the \<open>forEach\<close>
  into \<open>members\<close>, the new \<open>options\<close>, \<open>membersLeft -= 1000\<close> and \<open>loops++\<close>.
\<close>

definition merge_page :: "member list \<Rightarrow> 'p loop_state \<Rightarrow> 'p loop_state" where
  "merge_page memberStructures s =
     s\<lparr>members := foldl (\<lambda>c m. Collection_set c (m_id m) m) (members s) memberStructures,
       options := Some \<lparr>gm_limit = gm_limit_of (options s),
                        gm_after = Some (m_id (last memberStructures))\<rparr>,
       membersLeft := membersLeft s - 1000,
       loops := loops s + 1,
       events := events s @ map MembersSet memberStructures\<rparr>"

text \<open>
  The \<open>while\<close> loop. \<open>rest n req\<close> is the page \<open>RequestManager.get\<close> returns to the
  \<open>n\<close>-th request of the call (\<open>n\<close> is the loop's own counter \<open>loops\<close>), so the
  server may answer the same URL differently each time. The \<open>console.log\<close> of the
  progress is left out.
\<close>

function getMembers_loop ::
  "(nat \<Rightarrow> request \<Rightarrow> 'p list) \<Rightarrow> ('p \<Rightarrow> string \<Rightarrow> member) \<Rightarrow> string \<Rightarrow> guild
     \<Rightarrow> 'p loop_state \<Rightarrow> 'p loop_state" where
  "getMembers_loop rest mk guildID guild s =
     (if loop_cond guild s then
        let req = page_request guildID s;
            result = rest (loops s) req;
            memberStructures = map (\<lambda>member. mk member guildID) result;
            s1 = cache_page req result memberStructures s
        in if memberStructures = [] then s1
           else getMembers_loop rest mk guildID guild (merge_page memberStructures s1)
      else s)"
  by pat_completeness auto
termination
  by (relation "measure (\<lambda>(rest, mk, guildID, guild, s). nat (membersLeft s))")
     (auto simp: loop_cond_def merge_page_def cache_page_def)

declare getMembers_loop.simps [simp del]

text \<open>
  \<open>getMembers(guildID, options)\<close>: the result (an error or the collection), the
  members cache afterwards, and the events of the call.
\<close>

definition getMembers ::
  "int \<Rightarrow> (nat \<Rightarrow> request \<Rightarrow> 'p list) \<Rightarrow> ('p \<Rightarrow> string \<Rightarrow> member) \<Rightarrow> (string \<rightharpoonup> guild)
     \<Rightarrow> string \<Rightarrow> GetMemberOptions option \<Rightarrow> (string \<rightharpoonup> member)
     \<Rightarrow> (error + Collection) \<times> (string \<rightharpoonup> member) \<times> 'p event list" where
  "getMembers intents rest mk guilds guildID opts members_cache =
     (if \<not> intents_test intents then (Inl MISSING_INTENT_GUILD_MEMBERS, members_cache, [])
      else case guilds guildID of
        None \<Rightarrow> (Inl GUILD_NOT_FOUND, members_cache, [])
      | Some guild \<Rightarrow>
          let s = getMembers_loop rest mk guildID guild
                    \<lparr>members = [], membersLeft = wanted guild opts, loops = 1,
                     options = opts, cache = members_cache, events = []\<rparr>
          in (Inr (members s), cache s, events s))"

text \<open>Reading the events: the page requests of a call, each with the page returned.\<close>

fun requests :: "'p event list \<Rightarrow> (request \<times> 'p list) list" where
  "requests [] = []"
| "requests (RestGet r p # es) = (r, p) # requests es"
| "requests (e # es) = requests es"

text \<open>
  Vocabulary for statements about a run. The structures of a page; the members
  fetched by a list of page requests, in order of arrival; the collection's \<open>set\<close>
  and the cache write folded over a list of members; and the events one page
  request gives rise to when every step of the body is taken.
\<close>

definition page_structs :: "('p \<Rightarrow> string \<Rightarrow> member) \<Rightarrow> string \<Rightarrow> 'p list \<Rightarrow> member list" where
  "page_structs mk guildID result = map (\<lambda>member. mk member guildID) result"

definition fetched ::
  "('p \<Rightarrow> string \<Rightarrow> member) \<Rightarrow> string \<Rightarrow> (request \<times> 'p list) list \<Rightarrow> member list" where
  "fetched mk guildID reqs = concat (map (\<lambda>rp. page_structs mk guildID (snd rp)) reqs)"

definition merge_all :: "Collection \<Rightarrow> member list \<Rightarrow> Collection" where
  "merge_all c ms = foldl (\<lambda>c m. Collection_set c (m_id m) m) c ms"

definition cache_all :: "(string \<rightharpoonup> member) \<Rightarrow> member list \<Rightarrow> (string \<rightharpoonup> member)" where
  "cache_all c ms = foldl (\<lambda>c m. c(m_id m \<mapsto> m)) c ms"

definition page_events ::
  "('p \<Rightarrow> string \<Rightarrow> member) \<Rightarrow> string \<Rightarrow> request \<times> 'p list \<Rightarrow> 'p event list" where
  "page_events mk guildID rp =
     RestGet (fst rp) (snd rp)
       # map CacheSet (page_structs mk guildID (snd rp))
       @ map MembersSet (page_structs mk guildID (snd rp))"

text \<open>
  The spec's "highest-id member" of a page: ids are decimal snowflakes, compared
  by value.
\<close>

definition snowflake :: "string \<Rightarrow> nat" where
  "snowflake s = foldl (\<lambda>n c. 10 * n + (of_char c - 48)) 0 s"

fun highest_from :: "string \<Rightarrow> member list \<Rightarrow> string" where
  "highest_from best [] = best"
| "highest_from best (m # ms) =
     highest_from (if snowflake best < snowflake (m_id m) then m_id m else best) ms"

definition spec_highest_id :: "member list \<Rightarrow> string option" where
  "spec_highest_id ms = (case ms of [] \<Rightarrow> None | m # ms' \<Rightarrow> Some (highest_from (m_id m) ms'))"

text \<open>
  The invariant of the loop at its head, for a call that started with the options
  \<open>opts\<close> and the members cache \<open>c0\<close>: what the variables hold in terms of the
  page requests made so far.
\<close>

definition loop_inv ::
  "('p \<Rightarrow> string \<Rightarrow> member) \<Rightarrow> string \<Rightarrow> guild \<Rightarrow> GetMemberOptions option
     \<Rightarrow> (string \<rightharpoonup> member) \<Rightarrow> 'p loop_state \<Rightarrow> bool" where
  "loop_inv mk guildID guild opts c0 s =
     (let reqs = requests (events s) in
        gm_limit_of (options s) = gm_limit_of opts
      \<and> membersLeft s = wanted guild opts - 1000 * int (length reqs)
      \<and> members s = merge_all [] (fetched mk guildID reqs)
      \<and> cache s = cache_all c0 (fetched mk guildID reqs)
      \<and> events s = concat (map (page_events mk guildID) reqs)
      \<and> list_all (\<lambda>rp. snd rp \<noteq> []) reqs
      \<and> loops s = Suc (length reqs)
      \<and> gm_after_of (options s)
          = (if reqs = [] then gm_after_of opts
             else Some (m_id (last (page_structs mk guildID (snd (last reqs)))))))"

text \<open>
  What holds of the page requests of a run, one by one: the \<open>i\<close>-th (from 0) was
  made with a positive counter, before the accumulated count had reached the
  wanted one, for the counter's value capped at 1000, and with the cursor the
  options then held; the page logged with it is the server's answer.
\<close>

definition request_ok ::
  "(nat \<Rightarrow> request \<Rightarrow> 'p list) \<Rightarrow> ('p \<Rightarrow> string \<Rightarrow> member) \<Rightarrow> string \<Rightarrow> guild
     \<Rightarrow> GetMemberOptions option \<Rightarrow> (request \<times> 'p list) list \<Rightarrow> nat \<Rightarrow> bool" where
  "request_ok rest mk guildID guild opts reqs i =
     (0 < wanted guild opts - 1000 * int i
      \<and> snd (reqs ! i) = rest (Suc i) (fst (reqs ! i))
      \<and> Collection_size (merge_all [] (fetched mk guildID (take i reqs))) < wanted guild opts
      \<and> r_limit (fst (reqs ! i)) = min 1000 (wanted guild opts - 1000 * int i)
      \<and> r_guildID (fst (reqs ! i)) = guildID
      \<and> r_after (fst (reqs ! i))
          = (if i = 0 then after_param (gm_after_of opts)
             else after_param (Some (m_id (last (page_structs mk guildID (snd (reqs ! (i - 1)))))))))"

text \<open>What holds of the state the loop ends in.\<close>

definition loop_post ::
  "(nat \<Rightarrow> request \<Rightarrow> 'p list) \<Rightarrow> ('p \<Rightarrow> string \<Rightarrow> member) \<Rightarrow> string \<Rightarrow> guild
     \<Rightarrow> GetMemberOptions option \<Rightarrow> (string \<rightharpoonup> member) \<Rightarrow> 'p loop_state \<Rightarrow> bool" where
  "loop_post rest mk guildID guild opts c0 f =
     (let reqs = requests (events f) in
        list_all (request_ok rest mk guildID guild opts reqs) [0..<length reqs]
      \<and> members f = merge_all [] (fetched mk guildID reqs)
      \<and> cache f = cache_all c0 (fetched mk guildID reqs)
      \<and> events f = concat (map (page_events mk guildID) reqs)
      \<and> list_all (\<lambda>rp. snd rp \<noteq> []) (butlast reqs)
      \<and> (reqs \<noteq> [] \<and> snd (last reqs) = []
          \<or> wanted guild opts \<le> Collection_size (members f)
          \<or> wanted guild opts - 1000 * int (length reqs) \<le> 0))"

subsection \<open>Concrete inputs\<close>

text \<open>
  Payloads are pairs of an id and a nickname here, and \<open>example_mk\<close> builds the
  structure from them.
\<close>

definition example_mk :: "string \<times> string \<Rightarrow> string \<Rightarrow> member" where
  "example_mk p guildID = \<lparr>m_id = fst p, m_guildID = guildID, m_nick = snd p\<rparr>"

definition example_guild :: guild where
  "example_guild = \<lparr>g_id = ''g'', memberCount = 2000\<rparr>"

definition example_guilds :: "string \<rightharpoonup> guild" where
  "example_guilds = [''g'' \<mapsto> example_guild]"

definition no_guilds :: "string \<rightharpoonup> guild" where
  "no_guilds = Map.empty"

definition no_members :: "string \<rightharpoonup> member" where
  "no_members = Map.empty"

text \<open>Two ids with a caller-supplied limit of 1; one id and no limit; a limit alone.\<close>

definition two_ids_limit_one :: FetchMembersOptions where
  "two_ids_limit_one =
     \<lparr>fm_presences = None, fm_query = None, fm_userIDs = Some [''1'', ''2''], fm_limit = Some 1\<rparr>"

definition one_id_no_limit :: FetchMembersOptions where
  "one_id_no_limit =
     \<lparr>fm_presences = None, fm_query = None, fm_userIDs = Some [''1''], fm_limit = None\<rparr>"

definition only_limit :: "int \<Rightarrow> FetchMembersOptions" where
  "only_limit n = \<lparr>fm_presences = None, fm_query = None, fm_userIDs = None, fm_limit = Some n\<rparr>"

text \<open>A server whose first page is not in ascending order of id.\<close>

definition unsorted_rest :: "nat \<Rightarrow> request \<Rightarrow> (string \<times> string) list" where
  "unsorted_rest n req = (if n = 1 then [(''5'', ''a''), (''3'', ''b'')] else [])"

text \<open>
  A server that returns the member \<open>1\<close> on its first two pages, with different
  contents, and nothing afterwards.
\<close>

definition dup_rest :: "nat \<Rightarrow> request \<Rightarrow> (string \<times> string) list" where
  "dup_rest n req =
     (if n = 1 then [(''1'', ''old'')] else if n = 2 then [(''1'', ''new'')] else [])"

text \<open>A server that returns exactly as many members as each request asks for.\<close>

definition full_rest :: "nat \<Rightarrow> request \<Rightarrow> (string \<times> string) list" where
  "full_rest n req = replicate (nat (r_limit req)) (''7'', ''x'')"

definition big_guild :: guild where
  "big_guild = \<lparr>g_id = ''g'', memberCount = 2500\<rparr>"

definition big_guilds :: "string \<rightharpoonup> guild" where
  "big_guilds = [''g'' \<mapsto> big_guild]"

section \<open>The gateway path\<close>

lemmas gate_defs =
  fetchMembers_def intents_test_def js_and_def truthy_def truthy_opt_def gt_one_def
  GUILD_MEMBERS_def fm_limit_of_def override_limit_def

text \<open>The intents test of both paths passes exactly when the intents value is not zero.\<close>

lemma intents_test_iff: "intents_test intents \<longleftrightarrow> intents \<noteq> 0"
  by (simp add: intents_test_def js_and_def truthy_def GUILD_MEMBERS_def)

text \<open>
  Claim C1 (every call with an effective limit of 0 or above 1 throws when the
  granted intents lack the \<open>GUILD_MEMBERS\<close> bit) is broken by the code: the guard
  tests \<open>identifyPayload.intents && Intents.GUILD_MEMBERS\<close> with the logical \<open>&&\<close>
  where the bit test \<open>&\<close> is meant, so intents that are not zero pass it whether
  or not they hold the bit. With the intents \<open>1\<close> (the bit is absent) and a limit
  of 0 the call goes through to \<open>requestAllMembers\<close>.
\<close>

theorem fetchMembers_logical_and:
  "\<not> spec_has_guild_members 1
   \<and> spec_effective_limit (Some (only_limit 0)) = 0
   \<and> fetchMembers 1 example_guild (Some (only_limit 0))
       = Inr \<lparr>rq_guild = example_guild, rq_options = Some (only_limit 0)\<rparr>"
  by (simp add: gate_defs spec_has_guild_members_def spec_effective_limit_def only_limit_def)

text \<open>In particular the call does not end in the error the claim asks for.\<close>

theorem fetchMembers_logical_and_witness:
  "fetchMembers 1 example_guild (Some (only_limit 0)) \<noteq> Inl MISSING_INTENT_GUILD_MEMBERS"
  using fetchMembers_logical_and by simp

text \<open>
  The guard also runs before the id list overrides the limit, so it lets through
  a request for two members that it is there to stop: with the intents \<open>0\<close>, a
  caller-supplied limit of 1 and two ids, no error is thrown and
  \<open>requestAllMembers\<close> is called with the limit 2.
\<close>

lemma fetchMembers_guard_reads_caller_limit:
  "spec_effective_limit (Some two_ids_limit_one) = 2
   \<and> \<not> spec_has_guild_members 0
   \<and> fetchMembers 0 example_guild (Some two_ids_limit_one)
       = Inr \<lparr>rq_guild = example_guild,
              rq_options = Some (two_ids_limit_one\<lparr>fm_limit := Some 2\<rparr>)\<rparr>"
  by (simp add: gate_defs spec_effective_limit_def spec_has_guild_members_def
        two_ids_limit_one_def)

text \<open>
  Claim C2: with a non-empty \<open>userIDs\<close> list of length \<open>k\<close>, the options handed to
  \<open>requestAllMembers\<close> carry the limit \<open>k\<close>, whatever limit the caller supplied;
  the other fields are the caller's.
\<close>

theorem fetchMembers_userIDs_limit:
  assumes "fm_userIDs opts = Some ids" and "ids \<noteq> []"
    and "fetchMembers intents guild (Some opts) = Inr r"
  shows "fm_limit_of (rq_options r) = Some (int (length ids))
       \<and> rq_options r = Some (opts\<lparr>fm_limit := Some (int (length ids))\<rparr>)"
  using assms
  by (auto simp: fetchMembers_def override_limit_def fm_limit_of_def truthy_def
        split: if_splits)

theorem fetchMembers_userIDs_limit_witness:
  "fm_userIDs two_ids_limit_one = Some [''1'', ''2'']
   \<and> fetchMembers 7 example_guild (Some two_ids_limit_one)
       = Inr \<lparr>rq_guild = example_guild,
              rq_options = Some (two_ids_limit_one\<lparr>fm_limit := Some 2\<rparr>)\<rparr>
   \<and> fm_limit_of (Some (two_ids_limit_one\<lparr>fm_limit := Some 2\<rparr>)) = Some 2"
  using fetchMembers_userIDs_limit [of two_ids_limit_one "[''1'', ''2'']" 7 example_guild
      "\<lparr>rq_guild = example_guild, rq_options = Some (two_ids_limit_one\<lparr>fm_limit := Some 2\<rparr>)\<rparr>"]
  by (simp add: gate_defs two_ids_limit_one_def)

text \<open>
  Claim C3 (a call whose effective limit is 1 passes the validation for every
  intents value) is broken by the code, against its own comment "You can request
  1 member without the intent": the guard runs before the id list overrides the
  limit, so a single id with no caller-supplied limit, a request for one member,
  is refused when the intents are zero.
\<close>

theorem fetchMembers_single_id_throws:
  "spec_effective_limit (Some one_id_no_limit) = 1
   \<and> override_limit (Some one_id_no_limit) = Some (one_id_no_limit\<lparr>fm_limit := Some 1\<rparr>)
   \<and> fetchMembers 0 example_guild (Some one_id_no_limit) = Inl MISSING_INTENT_GUILD_MEMBERS"
  by (simp add: gate_defs spec_effective_limit_def one_id_no_limit_def)

text \<open>In particular the request for the one member is not made.\<close>

theorem fetchMembers_single_id_throws_witness:
  "fetchMembers 0 example_guild (Some one_id_no_limit)
     \<noteq> Inr \<lparr>rq_guild = example_guild,
              rq_options = Some (one_id_no_limit\<lparr>fm_limit := Some 1\<rparr>)\<rparr>"
  using fetchMembers_single_id_throws by simp

text \<open>
  Claim C10: for a guild id absent from the guilds cache, \<open>getMembersByQuery\<close>
  returns \<open>undefined\<close>: no error is thrown and \<open>requestAllMembers\<close> is not called.
\<close>

theorem getMembersByQuery_unknown_guild:
  assumes "guilds guildID = None"
  shows "getMembersByQuery guilds guildID name limit = Inr None"
  using assms by (simp add: getMembersByQuery_def)

theorem getMembersByQuery_unknown_guild_witness:
  "no_guilds ''g'' = None \<and> getMembersByQuery no_guilds ''g'' ''bob'' None = Inr None"
  using getMembersByQuery_unknown_guild [of no_guilds "''g''" "''bob''" None]
  by (simp add: no_guilds_def)

section \<open>The REST path: the checks before the loop\<close>

text \<open>
  Claim C9: with an intents value of zero \<open>getMembers\<close> throws
  \<open>MISSING_INTENT_GUILD_MEMBERS\<close> whatever the options, before the guilds cache is
  read and before any REST request: the cache is unchanged and there are no events.
\<close>

theorem getMembers_zero_intents_throws:
  "getMembers 0 rest mk guilds guildID opts members_cache
     = (Inl MISSING_INTENT_GUILD_MEMBERS, members_cache, [])"
  by (simp add: getMembers_def intents_test_def js_and_def truthy_def)

theorem getMembers_zero_intents_throws_witness:
  "getMembers 0 dup_rest example_mk example_guilds ''g''
       (Some \<lparr>gm_limit = Some 1, gm_after = None\<rparr>) no_members
     = (Inl MISSING_INTENT_GUILD_MEMBERS, no_members, [])"
  using getMembers_zero_intents_throws [of dup_rest example_mk example_guilds "''g''"
      "Some \<lparr>gm_limit = Some 1, gm_after = None\<rparr>" no_members]
  by simp

text \<open>
  Claim C4, as stated, fails: the intents test comes first, so with zero intents a
  call on an unknown guild fails with \<open>MISSING_INTENT_GUILD_MEMBERS\<close>, not with
  \<open>GUILD_NOT_FOUND\<close>.
\<close>

theorem getMembers_intent_error_first:
  "no_guilds ''g'' = None
   \<and> getMembers 0 unsorted_rest example_mk no_guilds ''g'' None no_members
       = (Inl MISSING_INTENT_GUILD_MEMBERS, no_members, [])"
  by (simp add: getMembers_def intents_test_def js_and_def truthy_def no_guilds_def)

text \<open>
  Claim C4, amended: when the intents value is not zero, a call on a guild id
  absent from the guilds cache fails with \<open>GUILD_NOT_FOUND\<close> whatever the options
  (\<open>GetMemberOptions\<close> has a limit and a cursor and no force flag), with no REST
  request and the members cache unchanged.
\<close>

theorem getMembers_unknown_guild:
  assumes "intents \<noteq> 0" and "guilds guildID = None"
  shows "getMembers intents rest mk guilds guildID opts members_cache
           = (Inl GUILD_NOT_FOUND, members_cache, [])"
  using assms by (simp add: getMembers_def intents_test_iff)

theorem getMembers_unknown_guild_witness:
  "(1::int) \<noteq> 0 \<and> no_guilds ''g'' = None
   \<and> getMembers 1 unsorted_rest example_mk no_guilds ''g''
         (Some \<lparr>gm_limit = Some 10, gm_after = None\<rparr>) no_members
       = (Inl GUILD_NOT_FOUND, no_members, [])"
  using getMembers_unknown_guild [of 1 no_guilds "''g''" unsorted_rest example_mk
      "Some \<lparr>gm_limit = Some 10, gm_after = None\<rparr>" no_members]
  by (simp add: no_guilds_def)

section \<open>The REST path: the pagination loop\<close>

subsection \<open>Events, collections and the cache\<close>

lemma requests_append [simp]: "requests (xs @ ys) = requests xs @ requests ys"
  by (induction xs rule: requests.induct) simp_all

lemma requests_CacheSet [simp]: "requests (map CacheSet ms) = []"
  by (induction ms) simp_all

lemma requests_MembersSet [simp]: "requests (map MembersSet ms) = []"
  by (induction ms) simp_all

lemma requests_CacheSet_comp [simp]: "requests (map (CacheSet \<circ> f) xs) = []"
  by (induction xs) simp_all

lemma requests_MembersSet_comp [simp]: "requests (map (MembersSet \<circ> f) xs) = []"
  by (induction xs) simp_all

lemma requests_page_events [simp]: "requests (page_events mk guildID rp) = [rp]"
  by (simp add: page_events_def)

lemma fetched_append [simp]:
  "fetched mk guildID (xs @ ys) = fetched mk guildID xs @ fetched mk guildID ys"
  by (simp add: fetched_def)

lemma fetched_single [simp]: "fetched mk guildID [rp] = page_structs mk guildID (snd rp)"
  by (simp add: fetched_def)

lemma fetched_Nil [simp]: "fetched mk guildID [] = []"
  by (simp add: fetched_def)

lemma merge_all_append: "merge_all c (xs @ ys) = merge_all (merge_all c xs) ys"
  by (simp add: merge_all_def)

lemma cache_all_append: "cache_all c (xs @ ys) = cache_all (cache_all c xs) ys"
  by (simp add: cache_all_def)

lemma length_Collection_set: "length (Collection_set c k v) \<le> Suc (length c)"
  by (simp add: Collection_set_def split: option.splits)

lemma length_merge_all: "length (merge_all c ms) \<le> length c + length ms"
proof (induction ms arbitrary: c)
  case Nil
  show ?case by (simp add: merge_all_def)
next
  case (Cons m ms)
  have "length (merge_all c (m # ms)) = length (merge_all (Collection_set c (m_id m) m) ms)"
    by (simp add: merge_all_def)
  also have "\<dots> \<le> length (Collection_set c (m_id m) m) + length ms"
    by (rule Cons.IH)
  also have "\<dots> \<le> Suc (length c) + length ms"
    using length_Collection_set [of c "m_id m" m] by simp
  finally show ?case by simp
qed





subsection \<open>The loop invariant\<close>

text \<open>
  A request that was checked stays so when further requests are logged after it, and
  the request the loop makes from a state that satisfies the invariant is checked.
\<close>

lemma request_ok_append:
  assumes "i < length reqs"
  shows "request_ok rest mk guildID guild opts (reqs @ ys) i = request_ok rest mk guildID guild opts reqs i"
proof -
  have "(reqs @ ys) ! i = reqs ! i" using assms by (simp add: nth_append)
  moreover have "(reqs @ ys) ! (i - 1) = reqs ! (i - 1)"
  proof -
    have "i - 1 < length reqs" using assms by arith
    then show ?thesis by (simp add: nth_append)
  qed
  moreover have "take i (reqs @ ys) = take i reqs" using assms by simp
  ultimately show ?thesis by (auto simp: request_ok_def)
qed

lemma request_ok_new:
  assumes inv: "loop_inv mk guildID guild opts c0 s" and c: "loop_cond guild s"
  shows "request_ok rest mk guildID guild opts
           (requests (events s) @ [(page_request guildID s, rest (loops s) (page_request guildID s))])
           (length (requests (events s)))"
proof -
  let ?reqs = "requests (events s)"
  have w: "wanted guild (options s) = wanted guild opts"
    using inv by (simp add: loop_inv_def Let_def wanted_def)
  have left: "membersLeft s = wanted guild opts - 1000 * int (length ?reqs)"
    using inv by (simp add: loop_inv_def Let_def)
  have mem: "members s = merge_all [] (fetched mk guildID ?reqs)"
    using inv by (simp add: loop_inv_def Let_def)
  have aft: "gm_after_of (options s)
      = (if ?reqs = [] then gm_after_of opts
         else Some (m_id (last (page_structs mk guildID (snd (last ?reqs))))))"
    using inv by (simp add: loop_inv_def Let_def)
  have 1: "0 < wanted guild opts - 1000 * int (length ?reqs)"
    using c left by (simp add: loop_cond_def)
  have 2: "Collection_size (merge_all [] (fetched mk guildID ?reqs)) < wanted guild opts"
    using c mem w by (simp add: loop_cond_def)
  have 3: "r_limit (page_request guildID s) = min 1000 (wanted guild opts - 1000 * int (length ?reqs))"
    using left by (simp add: page_request_def min_def)
  have 4: "r_after (page_request guildID s)
      = (if ?reqs = [] then after_param (gm_after_of opts)
         else after_param (Some (m_id (last (page_structs mk guildID (snd (last ?reqs)))))))"
    using aft by (simp add: page_request_def)
  have 5: "?reqs \<noteq> [] \<Longrightarrow> ?reqs ! (length ?reqs - 1) = last ?reqs"
    by (simp add: last_conv_nth)
  have 6: "loops s = Suc (length ?reqs)"
    using inv by (simp add: loop_inv_def Let_def)
  show ?thesis
    using 1 2 3 4 5 6
    by (simp add: request_ok_def nth_append page_request_def)
qed

lemma requests_ok_snoc:
  assumes ok: "list_all (request_ok rest mk guildID guild opts reqs) [0..<length reqs]"
    and new: "request_ok rest mk guildID guild opts (reqs @ [rp]) (length reqs)"
  shows "list_all (request_ok rest mk guildID guild opts (reqs @ [rp])) [0..<length (reqs @ [rp])]"
  using ok new by (auto simp: list_all_iff request_ok_append less_Suc_eq)

lemma loop_post_stop:
  assumes inv: "loop_inv mk guildID guild opts c0 s"
    and ok: "list_all (request_ok rest mk guildID guild opts (requests (events s)))
               [0..<length (requests (events s))]"
    and c: "\<not> loop_cond guild s"
  shows "loop_post rest mk guildID guild opts c0 s"
proof -
  let ?reqs = "requests (events s)"
  have w: "wanted guild (options s) = wanted guild opts"
    using inv by (simp add: loop_inv_def Let_def wanted_def)
  have left: "membersLeft s = wanted guild opts - 1000 * int (length ?reqs)"
    using inv by (simp add: loop_inv_def Let_def)
  have ne: "list_all (\<lambda>rp. snd rp \<noteq> []) (butlast ?reqs)"
    using inv by (auto simp: loop_inv_def Let_def list_all_iff dest: in_set_butlastD)
  have stop: "wanted guild opts \<le> Collection_size (members s)
      \<or> wanted guild opts - 1000 * int (length ?reqs) \<le> 0"
    using c w left by (auto simp: loop_cond_def)
  show ?thesis
    using inv ok ne stop by (simp add: loop_post_def loop_inv_def Let_def)
qed

lemma loop_post_empty_page:
  assumes inv: "loop_inv mk guildID guild opts c0 s"
    and ok: "list_all (request_ok rest mk guildID guild opts (requests (events s)))
               [0..<length (requests (events s))]"
    and c: "loop_cond guild s"
    and e: "rest (loops s) (page_request guildID s) = []"
  shows "loop_post rest mk guildID guild opts c0 (cache_page (page_request guildID s) [] [] s)"
proof -
  let ?reqs = "requests (events s)"
  let ?rp = "(page_request guildID s, [])"
  let ?f = "cache_page (page_request guildID s) [] [] s"
  have r: "requests (events ?f) = ?reqs @ [?rp]"
    by (simp add: cache_page_def)
  have ok': "list_all (request_ok rest mk guildID guild opts (?reqs @ [?rp])) [0..<length (?reqs @ [?rp])]"
    using ok request_ok_new [OF inv c, of rest] unfolding e by (rule requests_ok_snoc)
  have f: "fetched mk guildID (?reqs @ [?rp]) = fetched mk guildID ?reqs"
    by (simp add: page_structs_def)
  have m: "members ?f = merge_all [] (fetched mk guildID ?reqs)"
    using inv by (simp add: loop_inv_def Let_def cache_page_def)
  have ch: "cache ?f = cache_all c0 (fetched mk guildID ?reqs)"
    using inv by (simp add: loop_inv_def Let_def cache_page_def)
  have ev: "events ?f = concat (map (page_events mk guildID) (?reqs @ [?rp]))"
    using inv by (simp add: loop_inv_def Let_def cache_page_def page_events_def page_structs_def)
  have ne: "list_all (\<lambda>rp. snd rp \<noteq> []) (butlast (?reqs @ [?rp]))"
    using inv by (simp add: loop_inv_def Let_def)
  show ?thesis
    unfolding loop_post_def Let_def r f
    using ok' m ch ev ne unfolding f by simp
qed

lemma loop_inv_step:
  assumes inv: "loop_inv mk guildID guild opts c0 s"
    and c: "loop_cond guild s"
    and ne: "result \<noteq> []"
  shows "loop_inv mk guildID guild opts c0
           (merge_page (map (\<lambda>member. mk member guildID) result)
              (cache_page (page_request guildID s) result
                 (map (\<lambda>member. mk member guildID) result) s))"
proof -
  let ?reqs = "requests (events s)"
  let ?ms = "map (\<lambda>member. mk member guildID) result"
  let ?rp = "(page_request guildID s, result)"
  let ?s2 = "merge_page ?ms (cache_page (page_request guildID s) result ?ms s)"
  have r: "requests (events ?s2) = ?reqs @ [?rp]"
    by (simp add: cache_page_def merge_page_def)
  have f: "fetched mk guildID (?reqs @ [?rp]) = fetched mk guildID ?reqs @ ?ms"
    by (simp add: page_structs_def)
  have 1: "gm_limit_of (options ?s2) = gm_limit_of opts"
    using inv by (simp add: loop_inv_def Let_def merge_page_def cache_page_def gm_limit_of_def)
  have 2: "membersLeft ?s2 = wanted guild opts - 1000 * int (length (?reqs @ [?rp]))"
    using inv by (simp add: loop_inv_def Let_def merge_page_def cache_page_def)
  have 3: "members ?s2 = merge_all [] (fetched mk guildID ?reqs @ ?ms)"
    using inv by (simp add: loop_inv_def Let_def merge_page_def cache_page_def merge_all_def)
  have 4: "cache ?s2 = cache_all c0 (fetched mk guildID ?reqs @ ?ms)"
    using inv by (simp add: loop_inv_def Let_def merge_page_def cache_page_def cache_all_def)
  have 5: "events ?s2 = concat (map (page_events mk guildID) (?reqs @ [?rp]))"
    using inv
    by (simp add: loop_inv_def Let_def merge_page_def cache_page_def page_events_def
          page_structs_def)
  have 6: "list_all (\<lambda>rp. snd rp \<noteq> []) (?reqs @ [?rp])"
    using inv ne by (simp add: loop_inv_def Let_def)
  have 8: "loops ?s2 = Suc (length (?reqs @ [?rp]))"
    using inv by (simp add: loop_inv_def Let_def merge_page_def cache_page_def)
  have 7: "gm_after_of (options ?s2)
      = Some (m_id (last (page_structs mk guildID (snd (last (?reqs @ [?rp]))))))"
    by (simp add: merge_page_def gm_after_of_def page_structs_def)
  show ?thesis
    unfolding loop_inv_def Let_def r f
    using 1 2 3 4 5 6 7 8 unfolding f by simp
qed

lemma loop_establishes_post:
  assumes "loop_inv mk guildID guild opts c0 s"
    and "list_all (request_ok rest mk guildID guild opts (requests (events s)))
           [0..<length (requests (events s))]"
  shows "loop_post rest mk guildID guild opts c0 (getMembers_loop rest mk guildID guild s)"
  using assms
proof (induction rest mk guildID guild s rule: getMembers_loop.induct)
  case (1 rest mk guildID guild s)
  let ?req = "page_request guildID s"
  let ?result = "rest (loops s) ?req"
  let ?ms = "map (\<lambda>member. mk member guildID) ?result"
  let ?s1 = "cache_page ?req ?result ?ms s"
  show ?case
  proof (cases "loop_cond guild s")
    case False
    then have "getMembers_loop rest mk guildID guild s = s"
      by (subst getMembers_loop.simps) simp
    with False "1.prems" show ?thesis by (simp add: loop_post_stop)
  next
    case True
    show ?thesis
    proof (cases "?result = []")
      case empty: True
      have "getMembers_loop rest mk guildID guild s = cache_page ?req [] [] s"
        using True empty by (subst getMembers_loop.simps) (simp add: Let_def)
      with True empty "1.prems" show ?thesis by (simp add: loop_post_empty_page)
    next
      case nonempty: False
      have unf: "getMembers_loop rest mk guildID guild s
          = getMembers_loop rest mk guildID guild (merge_page ?ms ?s1)"
        using True nonempty by (subst getMembers_loop.simps) (simp add: Let_def)
      have inv2: "loop_inv mk guildID guild opts c0 (merge_page ?ms ?s1)"
        using "1.prems"(1) True nonempty by (rule loop_inv_step)
      have r2: "requests (events (merge_page ?ms ?s1)) = requests (events s) @ [(?req, ?result)]"
        by (simp add: cache_page_def merge_page_def)
      have ok2: "list_all (request_ok rest mk guildID guild opts (requests (events (merge_page ?ms ?s1))))
                   [0..<length (requests (events (merge_page ?ms ?s1)))]"
        unfolding r2
        using "1.prems"(2) request_ok_new [OF "1.prems"(1) True]
        by (rule requests_ok_snoc)
      have "loop_post rest mk guildID guild opts c0
              (getMembers_loop rest mk guildID guild (merge_page ?ms ?s1))"
        using True nonempty inv2 ok2
        by (intro "1.IH" [OF True refl refl refl refl]) simp_all
      with unf show ?thesis by simp
    qed
  qed
qed

subsection \<open>From the loop to \<open>getMembers\<close>\<close>

lemma loop_inv_initial:
  "loop_inv mk guildID guild opts c0
     \<lparr>members = [], membersLeft = wanted guild opts, loops = 1, options = opts,
      cache = c0, events = []\<rparr>"
  by (simp add: loop_inv_def merge_all_def cache_all_def)

lemma getMembers_run:
  assumes "intents \<noteq> 0" and "guilds guildID = Some guild"
    and "getMembers intents rest mk guilds guildID opts c0 = (res, c', evs)"
  shows "\<exists>f. res = Inr (members f) \<and> c' = cache f \<and> evs = events f
             \<and> loop_post rest mk guildID guild opts c0 f"
proof -
  let ?s0 = "\<lparr>members = [], membersLeft = wanted guild opts, loops = 1, options = opts,
              cache = c0, events = []\<rparr> :: 'a loop_state"
  let ?f = "getMembers_loop rest mk guildID guild ?s0"
  have "loop_post rest mk guildID guild opts c0 ?f"
    by (rule loop_establishes_post [OF loop_inv_initial]) simp
  moreover have "getMembers intents rest mk guilds guildID opts c0
      = (Inr (members ?f), cache ?f, events ?f)"
    using assms(1,2) by (simp add: getMembers_def Let_def intents_test_iff)
  ultimately show ?thesis using assms(3) by auto
qed

lemmas run_defs =
  getMembers_def intents_test_def js_and_def truthy_def GUILD_MEMBERS_def wanted_def
  gm_limit_of_def gm_after_of_def getMembers_loop.simps loop_cond_def Collection_size_def
  page_request_def after_param_def cache_page_def merge_page_def Collection_set_def Let_def
  example_mk_def example_guild_def example_guilds_def no_members_def

lemma length_fetched_le:
  assumes "\<forall>rp\<in>set reqs. length (snd rp) \<le> k"
  shows "length (fetched mk guildID reqs) \<le> k * length reqs"
  using assms by (induction reqs) (auto simp: fetched_def page_structs_def)

lemma map_length_three:
  assumes "length xs = 3"
  shows "map f xs = [f (xs ! 0), f (xs ! 1), f (xs ! 2)]"
proof -
  from assms obtain a b c where "xs = [a, b, c]"
    by (auto simp: numeral_3_eq_3 length_Suc_conv)
  then show ?thesis by simp
qed

section \<open>The REST path: claims about the pagination\<close>

text \<open>
  In the statements below \<open>requests evs\<close> lists the page requests of the call with
  the pages the server returned, in order.

  Claim C5. Let \<open>target\<close> be the limit of the options or, when they give none,
  the guild's \<open>memberCount\<close>. The \<open>i\<close>-th request (from 0) is made when the
  counter is \<open>target - 1000 * i\<close> and the collection holds the members of the
  first \<open>i\<close> pages. Every page request asks for at most 1000 members (the
  counter capped at 1000, and at least 1), and the loop ends exactly at the first
  moment one of three conditions holds. No condition held before a request was
  made: the counter was positive, the accumulated count was below \<open>target\<close>, and
  every page but the last was non-empty. And one holds at the end: the last page
  was empty, or the accumulated count has reached \<open>target\<close>, or the counter has
  dropped to zero or below.
\<close>

theorem getMembers_pagination:
  assumes "intents \<noteq> 0" and "guilds guildID = Some guild"
    and "target = (case opts of
                     None \<Rightarrow> memberCount guild
                   | Some given \<Rightarrow>
                       (case gm_limit given of None \<Rightarrow> memberCount guild | Some l \<Rightarrow> l))"
    and "getMembers intents rest mk guilds guildID opts c0 = (res, c', evs)"
  shows "(\<forall>i<length (requests evs).
            r_limit (fst (requests evs ! i)) = min 1000 (target - 1000 * int i)
          \<and> 0 < r_limit (fst (requests evs ! i)) \<and> r_limit (fst (requests evs ! i)) \<le> 1000
          \<and> snd (requests evs ! i) = rest (Suc i) (fst (requests evs ! i))
          \<and> 0 < target - 1000 * int i
          \<and> Collection_size (merge_all [] (fetched mk guildID (take i (requests evs))))
               < target
          \<and> (Suc i < length (requests evs) \<longrightarrow> snd (requests evs ! i) \<noteq> []))
       \<and> res = Inr (merge_all [] (fetched mk guildID (requests evs)))
       \<and> (requests evs \<noteq> [] \<and> snd (last (requests evs)) = []
          \<or> target \<le> Collection_size (merge_all [] (fetched mk guildID (requests evs)))
          \<or> target - 1000 * int (length (requests evs)) \<le> 0)"
proof -
  from getMembers_run [OF assms(1,2,4)] obtain f where
    f: "res = Inr (members f)" "evs = events f"
    and post: "loop_post rest mk guildID guild opts c0 f"
    by blast
  let ?reqs = "requests evs"
  have w: "wanted guild opts = target"
    using assms(3) by (simp add: wanted_def gm_limit_of_def split: option.splits)
  have ok: "\<And>i. i < length ?reqs \<Longrightarrow> request_ok rest mk guildID guild opts ?reqs i"
    using post f(2) by (simp add: loop_post_def Let_def list_all_iff)
  have mem: "members f = merge_all [] (fetched mk guildID ?reqs)"
    using post f(2) by (simp add: loop_post_def Let_def)
  have bl: "list_all (\<lambda>rp. snd rp \<noteq> []) (butlast ?reqs)"
    using post f(2) by (simp add: loop_post_def Let_def)
  have stop: "?reqs \<noteq> [] \<and> snd (last ?reqs) = []
      \<or> target \<le> Collection_size (members f)
      \<or> target - 1000 * int (length ?reqs) \<le> 0"
    using post f(2) unfolding w [symmetric] by (auto simp: loop_post_def Let_def)
  have each: "r_limit (fst (?reqs ! i)) = min 1000 (target - 1000 * int i)
          \<and> 0 < r_limit (fst (?reqs ! i)) \<and> r_limit (fst (?reqs ! i)) \<le> 1000
          \<and> snd (?reqs ! i) = rest (Suc i) (fst (?reqs ! i))
          \<and> 0 < target - 1000 * int i
          \<and> Collection_size (merge_all [] (fetched mk guildID (take i ?reqs))) < target
          \<and> (Suc i < length ?reqs \<longrightarrow> snd (?reqs ! i) \<noteq> [])"
    if i: "i < length ?reqs" for i
  proof -
    have nonempty: "snd (?reqs ! i) \<noteq> []" if "Suc i < length ?reqs"
    proof -
      have "i < length (butlast ?reqs)" using that by simp
      then have "butlast ?reqs ! i \<in> set (butlast ?reqs)" by (rule nth_mem)
      moreover have "butlast ?reqs ! i = ?reqs ! i"
        using \<open>i < length (butlast ?reqs)\<close> by (simp add: nth_butlast)
      ultimately show ?thesis using bl by (auto simp: list_all_iff)
    qed
    show ?thesis
      using ok [OF i] nonempty unfolding w [symmetric] by (simp add: request_ok_def)
  qed
  have A: "\<forall>i<length ?reqs.
            r_limit (fst (?reqs ! i)) = min 1000 (target - 1000 * int i)
          \<and> 0 < r_limit (fst (?reqs ! i)) \<and> r_limit (fst (?reqs ! i)) \<le> 1000
          \<and> snd (?reqs ! i) = rest (Suc i) (fst (?reqs ! i))
          \<and> 0 < target - 1000 * int i
          \<and> Collection_size (merge_all [] (fetched mk guildID (take i ?reqs))) < target
          \<and> (Suc i < length ?reqs \<longrightarrow> snd (?reqs ! i) \<noteq> [])"
    using each by blast
  have B: "res = Inr (merge_all [] (fetched mk guildID ?reqs))"
    using f(1) mem by simp
  have C: "?reqs \<noteq> [] \<and> snd (last ?reqs) = []
      \<or> target \<le> Collection_size (merge_all [] (fetched mk guildID ?reqs))
      \<or> target - 1000 * int (length ?reqs) \<le> 0"
    using stop mem by simp
  show ?thesis
    by (rule conjI [OF A conjI [OF B C]])
qed

text \<open>
  Three runs on the guild of 2000 members, against a server whose first two pages
  hold one member each: with a limit of 1500 the requests ask for 1000 and 500
  (the counter ends the loop); with a limit of 1 the one request asks for 1 (the
  accumulated count ends it); without a limit they ask for 1000 and 1000. The
  theorem is applied to the first run.
\<close>

theorem getMembers_pagination_witness:
  "(1::int) \<noteq> 0 \<and> example_guilds ''g'' = Some example_guild
   \<and> map (\<lambda>rp. r_limit (fst rp))
        (requests (snd (snd (getMembers 1 dup_rest example_mk example_guilds ''g''
            (Some \<lparr>gm_limit = Some 1500, gm_after = None\<rparr>) no_members))))
       = [1000, 500]
   \<and> map (\<lambda>rp. r_limit (fst rp))
        (requests (snd (snd (getMembers 1 dup_rest example_mk example_guilds ''g''
            (Some \<lparr>gm_limit = Some 1, gm_after = None\<rparr>) no_members))))
       = [1]
   \<and> map (\<lambda>rp. r_limit (fst rp))
        (requests (snd (snd (getMembers 1 dup_rest example_mk example_guilds ''g'' None no_members))))
       = [1000, 1000]
   \<and> fst (getMembers 1 dup_rest example_mk example_guilds ''g''
            (Some \<lparr>gm_limit = Some 1500, gm_after = None\<rparr>) no_members)
       = Inr (merge_all [] (fetched example_mk ''g''
            (requests (snd (snd (getMembers 1 dup_rest example_mk example_guilds ''g''
               (Some \<lparr>gm_limit = Some 1500, gm_after = None\<rparr>) no_members))))))"
proof -
  let ?run = "getMembers 1 dup_rest example_mk example_guilds ''g''
                (Some \<lparr>gm_limit = Some 1500, gm_after = None\<rparr>) no_members"
  have i: "(1::int) \<noteq> 0" by simp
  have g: "example_guilds ''g'' = Some example_guild"
    by (simp add: example_guilds_def)
  have t: "(1500::int) = (case Some \<lparr>gm_limit = Some 1500, gm_after = None\<rparr> of
                     None \<Rightarrow> memberCount example_guild
                   | Some given \<Rightarrow>
                       (case gm_limit given of None \<Rightarrow> memberCount example_guild | Some l \<Rightarrow> l))"
    by simp
  have r: "?run = (fst ?run, fst (snd ?run), snd (snd ?run))" by simp
  note inst = getMembers_pagination [OF i g t r]
  have res: "fst ?run = Inr (merge_all [] (fetched example_mk ''g'' (requests (snd (snd ?run)))))"
    by (rule inst [THEN conjunct2, THEN conjunct1])
  have a: "map (\<lambda>rp. r_limit (fst rp)) (requests (snd (snd ?run))) = [1000, 500]"
    by (simp add: run_defs dup_rest_def)
  have b: "map (\<lambda>rp. r_limit (fst rp))
        (requests (snd (snd (getMembers 1 dup_rest example_mk example_guilds ''g''
            (Some \<lparr>gm_limit = Some 1, gm_after = None\<rparr>) no_members))))
       = [1]"
    by (simp add: run_defs dup_rest_def)
  have c: "map (\<lambda>rp. r_limit (fst rp))
        (requests (snd (snd (getMembers 1 dup_rest example_mk example_guilds ''g'' None no_members))))
       = [1000, 1000]"
    by (simp add: run_defs dup_rest_def)
  show ?thesis
    by (rule conjI [OF i conjI [OF g conjI [OF a conjI [OF b conjI [OF c res]]]]])
qed

text \<open>
  Claim C6, as stated, fails: the cursor is the id of the last member of the
  previous page, which is not the highest id when the page is not in ascending
  order. A first page with the ids 5, 3 is followed by a request \<open>after=3\<close>.
\<close>

theorem getMembers_cursor_not_highest:
  "requests (snd (snd (getMembers 1 unsorted_rest example_mk example_guilds ''g'' None no_members)))
     = [(\<lparr>r_guildID = ''g'', r_limit = 1000, r_after = None\<rparr>, [(''5'', ''a''), (''3'', ''b'')]),
        (\<lparr>r_guildID = ''g'', r_limit = 1000, r_after = Some ''3''\<rparr>, [])]
   \<and> spec_highest_id (page_structs example_mk ''g'' [(''5'', ''a''), (''3'', ''b'')]) = Some ''5''"
  by (simp add: run_defs unsorted_rest_def spec_highest_id_def page_structs_def snowflake_def)

text \<open>
  Claim C6, amended: the first page request carries the caller's \<open>after\<close> (none
  when the caller gave none, or an empty one), and every later request carries
  the id of the last member of the previous page, which is not empty. (An id
  that is the empty string would send no cursor, as \<open>after_param\<close> says.)
\<close>

theorem getMembers_cursor:
  assumes "intents \<noteq> 0" and "guilds guildID = Some guild"
    and "getMembers intents rest mk guilds guildID opts c0 = (res, c', evs)"
  shows "\<forall>i<length (requests evs).
           r_after (fst (requests evs ! i))
             = (if i = 0 then after_param (gm_after_of opts)
                else after_param
                       (Some (m_id (last (page_structs mk guildID (snd (requests evs ! (i - 1)))))))) 
         \<and> (0 < i \<longrightarrow> snd (requests evs ! (i - 1)) \<noteq> [])"
proof (intro allI impI)
  fix i
  assume i: "i < length (requests evs)"
  from getMembers_run [OF assms] obtain f where
    f: "evs = events f" and post: "loop_post rest mk guildID guild opts c0 f"
    by blast
  let ?reqs = "requests evs"
  have ok: "request_ok rest mk guildID guild opts ?reqs i"
    using post f i by (simp add: loop_post_def Let_def list_all_iff)
  have bl: "list_all (\<lambda>rp. snd rp \<noteq> []) (butlast ?reqs)"
    using post f by (simp add: loop_post_def Let_def)
  have "snd (?reqs ! (i - 1)) \<noteq> []" if "0 < i"
  proof -
    have lt: "i - 1 < length (butlast ?reqs)" using that i by simp
    then have "butlast ?reqs ! (i - 1) \<in> set (butlast ?reqs)" by (rule nth_mem)
    moreover have "butlast ?reqs ! (i - 1) = ?reqs ! (i - 1)"
      using lt by (simp add: nth_butlast)
    ultimately show ?thesis using bl by (auto simp: list_all_iff)
  qed
  then show "r_after (fst (?reqs ! i))
             = (if i = 0 then after_param (gm_after_of opts)
                else after_param
                       (Some (m_id (last (page_structs mk guildID (snd (?reqs ! (i - 1)))))))) 
         \<and> (0 < i \<longrightarrow> snd (?reqs ! (i - 1)) \<noteq> [])"
    using ok by (simp add: request_ok_def)
qed

theorem getMembers_cursor_witness:
  "(1::int) \<noteq> 0 \<and> example_guilds ''g'' = Some example_guild
   \<and> map (\<lambda>rp. r_after (fst rp))
        (requests (snd (snd (getMembers 1 dup_rest example_mk example_guilds ''g'' None no_members))))
       = [None, Some ''1'']"
  using getMembers_cursor [of 1 example_guilds "''g''" example_guild dup_rest example_mk
      None no_members
      "fst (getMembers 1 dup_rest example_mk example_guilds ''g'' None no_members)"
      "fst (snd (getMembers 1 dup_rest example_mk example_guilds ''g'' None no_members))"
      "snd (snd (getMembers 1 dup_rest example_mk example_guilds ''g'' None no_members))"]
  by (simp add: run_defs dup_rest_def)

text \<open>
  Claim C7: for a guild with a cached \<open>memberCount\<close> of 2500, no limit in the
  options, and a server that returns exactly as many members as each request
  asks for, the call makes exactly three page requests, for 1000, 1000 and 500
  members, and their pages hold 1000, 1000 and 500 members: none is empty.
\<close>

theorem getMembers_2500:
  assumes it: "intents \<noteq> 0" and g: "guilds guildID = Some guild"
    and mc: "memberCount guild = 2500" and nolimit: "gm_limit_of opts = None"
    and full: "\<forall>n req. length (rest n req) = nat (r_limit req)"
    and run: "getMembers intents rest mk guilds guildID opts c0 = (res, c', evs)"
  shows "map (\<lambda>rp. r_limit (fst rp)) (requests evs) = [1000, 1000, 500]
       \<and> map (\<lambda>rp. length (snd rp)) (requests evs) = [1000, 1000, 500]"
proof -
  from getMembers_run [OF it g run] obtain f where
    f: "res = Inr (members f)" "evs = events f"
    and post: "loop_post rest mk guildID guild opts c0 f"
    by blast
  let ?reqs = "requests evs"
  let ?n = "length ?reqs"
  have w: "wanted guild opts = 2500"
    using mc nolimit by (simp add: wanted_def)
  have ok: "request_ok rest mk guildID guild opts ?reqs i" if "i < ?n" for i
    using post f(2) that by (simp add: loop_post_def Let_def list_all_iff)
  have lim: "r_limit (fst (?reqs ! i)) = min 1000 (2500 - 1000 * int i)" if "i < ?n" for i
    using ok [OF that] w by (simp add: request_ok_def)
  have pos: "0 < 2500 - 1000 * int i" if "i < ?n" for i
    using ok [OF that] w by (simp add: request_ok_def)
  have len: "length (snd (?reqs ! i)) = nat (min 1000 (2500 - 1000 * int i))" if "i < ?n" for i
  proof -
    have "snd (?reqs ! i) = rest (Suc i) (fst (?reqs ! i))"
      using ok [OF that] by (simp add: request_ok_def)
    then show ?thesis using full lim [OF that] by simp
  qed
  have upper: "?n \<le> 3"
  proof (rule ccontr)
    assume "\<not> ?n \<le> 3"
    then have "3 < ?n" by simp
    from pos [OF this] show False by simp
  qed
  have page_le: "\<forall>rp\<in>set ?reqs. length (snd rp) \<le> 1000"
  proof
    fix rp assume "rp \<in> set ?reqs"
    then obtain i where i: "i < ?n" and rp: "?reqs ! i = rp"
      by (auto simp: in_set_conv_nth)
    from len [OF i] rp show "length (snd rp) \<le> 1000" by simp
  qed
  have size_le: "Collection_size (merge_all [] (fetched mk guildID ?reqs)) \<le> 1000 * int ?n"
  proof -
    have "length (merge_all [] (fetched mk guildID ?reqs)) \<le> length (fetched mk guildID ?reqs)"
      using length_merge_all [of "[]" "fetched mk guildID ?reqs"] by simp
    also have "\<dots> \<le> 1000 * ?n" by (rule length_fetched_le [OF page_le])
    finally show ?thesis by (simp add: Collection_size_def)
  qed
  have mem: "members f = merge_all [] (fetched mk guildID ?reqs)"
    using post f(2) by (simp add: loop_post_def Let_def)
  have stop: "?reqs \<noteq> [] \<and> snd (last ?reqs) = []
      \<or> 2500 \<le> Collection_size (merge_all [] (fetched mk guildID ?reqs))
      \<or> 2500 - 1000 * int ?n \<le> 0"
    using post f(2) w mem by (auto simp: loop_post_def Let_def)
  have last_nonempty: "snd (last ?reqs) \<noteq> []" if "?reqs \<noteq> []"
  proof -
    have i: "?n - 1 < ?n" using that by simp
    have "length (snd (?reqs ! (?n - 1))) = nat (min 1000 (2500 - 1000 * int (?n - 1)))"
      by (rule len [OF i])
    moreover have "0 < 2500 - 1000 * int (?n - 1)" by (rule pos [OF i])
    ultimately have "0 < length (snd (?reqs ! (?n - 1)))" by simp
    then show ?thesis using that by (simp add: last_conv_nth)
  qed
  have lower: "3 \<le> ?n"
    using stop last_nonempty size_le by auto
  have n3: "?n = 3" using upper lower by simp
  have l0: "r_limit (fst (?reqs ! 0)) = 1000" using lim [of 0] n3 by simp
  have l1: "r_limit (fst (?reqs ! 1)) = 1000" using lim [of 1] n3 by simp
  have l2: "r_limit (fst (?reqs ! 2)) = 500" using lim [of 2] n3 by simp
  have p0: "length (snd (?reqs ! 0)) = 1000" using len [of 0] n3 by simp
  have p1: "length (snd (?reqs ! 1)) = 1000" using len [of 1] n3 by simp
  have p2: "length (snd (?reqs ! 2)) = 500" using len [of 2] n3 by simp
  show ?thesis
    using l0 l1 l2 p0 p1 p2 by (simp add: map_length_three [OF n3])
qed

theorem getMembers_2500_witness:
  "(1::int) \<noteq> 0 \<and> big_guilds ''g'' = Some big_guild \<and> memberCount big_guild = 2500
   \<and> map (\<lambda>rp. r_limit (fst rp))
        (requests (snd (snd (getMembers 1 full_rest example_mk big_guilds ''g'' None no_members))))
       = [1000, 1000, 500]
   \<and> map (\<lambda>rp. length (snd rp))
        (requests (snd (snd (getMembers 1 full_rest example_mk big_guilds ''g'' None no_members))))
       = [1000, 1000, 500]"
  using getMembers_2500 [of 1 big_guilds "''g''" big_guild None full_rest example_mk no_members
      "fst (getMembers 1 full_rest example_mk big_guilds ''g'' None no_members)"
      "fst (snd (getMembers 1 full_rest example_mk big_guilds ''g'' None no_members))"
      "snd (snd (getMembers 1 full_rest example_mk big_guilds ''g'' None no_members))"]
  by (simp add: gm_limit_of_def full_rest_def big_guilds_def big_guild_def)



end
